theory Spec2Isabelle
  imports Main "HOL-Library.State_Monad"
begin

section \<open>Strings\<close>

text \<open>
  A Go string is a sequence of bytes, modelled as a \<open>string\<close> (a list of 8-bit characters).
  The source calls functions of Go's \<open>strings\<close> package: \<open>TrimSpace\<close>, \<open>HasPrefix\<close>,
  \<open>TrimPrefix\<close> and \<open>Join\<close>. They belong to the standard library, so they are modelled here
  from their documented behaviour.

  \<open>strings.TrimSpace\<close> removes every leading and every trailing white space rune, as Unicode
  defines white space. A white space rune below \<open>0x80\<close> is one of the six bytes tab, line feed,
  vertical tab, form feed, carriage return and space; the others are
  \<open>U+0085\<close>, \<open>U+00A0\<close>, \<open>U+1680\<close>, \<open>U+2000\<close> to \<open>U+200A\<close>, \<open>U+2028\<close>, \<open>U+2029\<close>, \<open>U+202F\<close>,
  \<open>U+205F\<close> and \<open>U+3000\<close>, each recognised by its UTF-8 encoding. \<open>spaceEncodings\<close> lists the
  encodings of all of them.
\<close>

definition spaceEncodings :: "string list" where
  "spaceEncodings =
     [[CHR 0x09], [CHR 0x0A], [CHR 0x0B], [CHR 0x0C], [CHR 0x0D], [CHR 0x20],
      [CHR 0xC2, CHR 0x85], [CHR 0xC2, CHR 0xA0],
      [CHR 0xE1, CHR 0x9A, CHR 0x80],
      [CHR 0xE2, CHR 0x80, CHR 0x80], [CHR 0xE2, CHR 0x80, CHR 0x81],
      [CHR 0xE2, CHR 0x80, CHR 0x82], [CHR 0xE2, CHR 0x80, CHR 0x83],
      [CHR 0xE2, CHR 0x80, CHR 0x84], [CHR 0xE2, CHR 0x80, CHR 0x85],
      [CHR 0xE2, CHR 0x80, CHR 0x86], [CHR 0xE2, CHR 0x80, CHR 0x87],
      [CHR 0xE2, CHR 0x80, CHR 0x88], [CHR 0xE2, CHR 0x80, CHR 0x89],
      [CHR 0xE2, CHR 0x80, CHR 0x8A],
      [CHR 0xE2, CHR 0x80, CHR 0xA8], [CHR 0xE2, CHR 0x80, CHR 0xA9],
      [CHR 0xE2, CHR 0x80, CHR 0xAF],
      [CHR 0xE2, CHR 0x81, CHR 0x9F],
      [CHR 0xE3, CHR 0x80, CHR 0x80]]"

definition HasPrefix :: "string \<Rightarrow> string \<Rightarrow> bool" where
  "HasPrefix s pre = (take (length pre) s = pre)"

definition HasSuffix :: "string \<Rightarrow> string \<Rightarrow> bool" where
  "HasSuffix s suf = (length suf \<le> length s \<and> drop (length s - length suf) s = suf)"

definition TrimPrefix :: "string \<Rightarrow> string \<Rightarrow> string" where
  "TrimPrefix s pre = (if HasPrefix s pre then drop (length pre) s else s)"

text \<open>The width in bytes of the white space rune a string starts (ends) with; 0 when it
  starts (ends) with none.\<close>

definition leadingSpace :: "string \<Rightarrow> nat" where
  "leadingSpace s = (case List.find (HasPrefix s) spaceEncodings of None \<Rightarrow> 0 | Some e \<Rightarrow> length e)"

definition trailingSpace :: "string \<Rightarrow> nat" where
  "trailingSpace s = (case List.find (HasSuffix s) spaceEncodings of None \<Rightarrow> 0 | Some e \<Rightarrow> length e)"

function TrimLeft :: "string \<Rightarrow> string" where
  "TrimLeft s = (if leadingSpace s = 0 then s else TrimLeft (drop (leadingSpace s) s))"
  by pat_completeness auto
termination
proof (relation "measure length")
  show "wf (measure length)" by simp
next
  fix s :: string
  assume a: "leadingSpace s \<noteq> 0"
  have "leadingSpace s \<le> length s"
  proof (cases "List.find (HasPrefix s) spaceEncodings")
    case None
    then show ?thesis by (simp add: leadingSpace_def)
  next
    case (Some e)
    then have "HasPrefix s e" by (auto simp: find_Some_iff)
    then have "length e \<le> length s"
      unfolding HasPrefix_def by (metis length_take min.cobounded1)
    with Some show ?thesis by (simp add: leadingSpace_def)
  qed
  with a show "(drop (leadingSpace s) s, s) \<in> measure length" by simp
qed

function TrimRight :: "string \<Rightarrow> string" where
  "TrimRight s = (if trailingSpace s = 0 then s else TrimRight (take (length s - trailingSpace s) s))"
  by pat_completeness auto
termination
proof (relation "measure length")
  show "wf (measure length)" by simp
next
  fix s :: string
  assume a: "trailingSpace s \<noteq> 0"
  have "trailingSpace s \<le> length s"
  proof (cases "List.find (HasSuffix s) spaceEncodings")
    case None
    then show ?thesis by (simp add: trailingSpace_def)
  next
    case (Some e)
    then have "HasSuffix s e" by (auto simp: find_Some_iff)
    then have "length e \<le> length s" by (simp add: HasSuffix_def)
    with Some show ?thesis by (simp add: trailingSpace_def)
  qed
  with a show "(take (length s - trailingSpace s) s, s) \<in> measure length" by simp
qed

declare TrimLeft.simps [simp del] TrimRight.simps [simp del]

definition TrimSpace :: "string \<Rightarrow> string" where
  "TrimSpace s = TrimRight (TrimLeft s)"

text \<open>\<open>strings.Join\<close>: the elements, with the separator between each two.\<close>

fun Join :: "string list \<Rightarrow> string \<Rightarrow> string" where
  "Join [] sep = []"
| "Join [x] sep = x"
| "Join (x # y # ys) sep = x @ sep @ Join (y # ys) sep"

text \<open>The verb \<open>%d\<close> of \<open>fmt.Sprintf\<close> on an index (never negative): its decimal digits.\<close>

fun itoa :: "nat \<Rightarrow> string" where
  "itoa n = (if n < 10 then [char_of (48 + n)] else itoa (n div 10) @ [char_of (48 + n mod 10)])"

declare itoa.simps [simp del]

section \<open>The data model (package config)\<close>

record Target =
  AccountID :: string
  Namespace :: string
  NamespaceAlias :: string

record TargetWrapper =
  Vault :: Target

text \<open>\<open>VaultEnabled\<close> is a \<open>*bool\<close> in the source: \<open>None\<close> is the nil pointer (the key absent).\<close>

record BranchOverride =
  Name :: string
  Vault :: Target
  VaultEnabled :: "bool option"

record Secret =
  Name :: string
  Default :: TargetWrapper
  BranchOverrides :: "BranchOverride list"

record File =
  VaultSecrets :: "Secret list"

text \<open>\<open>Target{}\<close>, the zero value of the struct.\<close>

definition zeroTarget :: Target where
  "zeroTarget = \<lparr>AccountID = [], Namespace = [], NamespaceAlias = []\<rparr>"

section \<open>Normalisation\<close>

text \<open>The three \<open>Normalize\<close> methods have pointer receivers and write in place; each is modelled
  as the function from the value before to the value after. \<open>Secret.Normalize\<close> normalises
  the default target and, in its loop, the target of each override (\<open>Override_Normalize\<close> is
  the body of that loop).\<close>

definition Target_Normalize :: "Target \<Rightarrow> Target" where
  "Target_Normalize t = (if Namespace t = [] then t\<lparr>Namespace := NamespaceAlias t\<rparr> else t)"

definition Override_Normalize :: "BranchOverride \<Rightarrow> BranchOverride" where
  "Override_Normalize ov = ov\<lparr>BranchOverride.Vault := Target_Normalize (BranchOverride.Vault ov)\<rparr>"

definition Secret_Normalize :: "Secret \<Rightarrow> Secret" where
  "Secret_Normalize s =
     s\<lparr>Default := (Default s)\<lparr>TargetWrapper.Vault := Target_Normalize (TargetWrapper.Vault (Default s))\<rparr>,
       BranchOverrides := map Override_Normalize (BranchOverrides s)\<rparr>"

definition File_Normalize :: "File \<Rightarrow> File" where
  "File_Normalize f = f\<lparr>VaultSecrets := map Secret_Normalize (VaultSecrets f)\<rparr>"

section \<open>Branch resolution (package validate)\<close>

definition branchCandidates :: "string \<Rightarrow> string list" where
  "branchCandidates branch0 =
     (let branch = TrimSpace branch0 in
      if branch = [] then []
      else
        let candidates = [branch];
            candidates = (if HasPrefix branch ''refs/heads/''
                          then candidates @ [TrimPrefix branch ''refs/heads/''] else candidates);
            candidates = (if HasPrefix branch ''origin/''
                          then candidates @ [TrimPrefix branch ''origin/''] else candidates)
        in candidates)"

text \<open>What the body of the inner loop returns for the override it has matched.\<close>

definition overrideResult :: "BranchOverride \<Rightarrow> Target \<times> bool" where
  "overrideResult override =
     (let enabled = (case VaultEnabled override of None \<Rightarrow> True | Some b \<Rightarrow> b) in
      if \<not> enabled then (zeroTarget, False)
      else if AccountID (BranchOverride.Vault override) = [] \<and> Namespace (BranchOverride.Vault override) = []
      then (zeroTarget, False)
      else (BranchOverride.Vault override, True))"

text \<open>The inner loop over the overrides, for one candidate: \<open>None\<close> when it runs to its end
  without returning.\<close>

fun scanOverrides :: "string \<Rightarrow> BranchOverride list \<Rightarrow> (Target \<times> bool) option" where
  "scanOverrides candidate [] = None"
| "scanOverrides candidate (override # rest) =
     (if BranchOverride.Name override \<noteq> candidate then scanOverrides candidate rest
      else Some (overrideResult override))"

text \<open>The outer loop over the candidates.\<close>

fun scanCandidates :: "string list \<Rightarrow> BranchOverride list \<Rightarrow> (Target \<times> bool) option" where
  "scanCandidates [] overrides = None"
| "scanCandidates (candidate # rest) overrides =
     (case scanOverrides candidate overrides of
        Some r \<Rightarrow> Some r
      | None \<Rightarrow> scanCandidates rest overrides)"

definition TargetForBranch :: "Secret \<Rightarrow> string \<Rightarrow> Target \<times> bool" where
  "TargetForBranch secret branch =
     (case scanCandidates (branchCandidates branch) (BranchOverrides secret) of
        Some r \<Rightarrow> r
      | None \<Rightarrow>
          if AccountID (TargetWrapper.Vault (Default secret)) = []
             \<and> Namespace (TargetWrapper.Vault (Default secret)) = []
          then (zeroTarget, False)
          else (TargetWrapper.Vault (Default secret), True))"

section \<open>Validation (package config)\<close>

definition targetDefined :: "Target \<Rightarrow> bool" where
  "targetDefined t = (TrimSpace (AccountID t) \<noteq> [] \<or> TrimSpace (Namespace t) \<noteq> [])"

definition targetsEqual :: "Target \<Rightarrow> Target \<Rightarrow> bool" where
  "targetsEqual a b =
     (TrimSpace (AccountID a) = TrimSpace (AccountID b) \<and> TrimSpace (Namespace a) = TrimSpace (Namespace b))"

text \<open>\<open>validateTarget\<close> returns an error built by \<open>fmt.Errorf\<close>, or nil: here the error's text,
  or \<open>None\<close>.\<close>

definition validateTarget :: "Target \<Rightarrow> string \<Rightarrow> string option" where
  "validateTarget t context =
     (if TrimSpace (AccountID t) = [] \<and> TrimSpace (Namespace t) = []
      then Some (context @ '': missing account_id and namespace'')
      else
        let issues = [];
            issues = (if TrimSpace (AccountID t) = [] then issues @ [''account_id is required''] else issues);
            issues = (if TrimSpace (Namespace t) = [] then issues @ [''namespace is required''] else issues)
        in if length issues > 0 then Some (context @ '': '' @ Join issues '', '') else None)"

record ValidationError =
  Issues :: "string list"

text \<open>
  The issue strings are built by \<open>fmt.Sprintf\<close>. Its verb \<open>%q\<close> quotes a string as
  \<open>strconv.Quote\<close> of the standard library does, which depends on Unicode's tables of
  printable characters and is not code of this repository: every function that formats an
  issue takes the quoting function as its first argument \<open>q\<close>.

  \<open>seenNames\<close> is a \<open>map[string]int\<close>; reading a key that is absent gives 0. Its counts are at
  most the number of secrets, so they are natural numbers here.
\<close>

definition seenCount :: "(string \<rightharpoonup> nat) \<Rightarrow> string \<Rightarrow> nat" where
  "seenCount seenNames k = (case seenNames k of None \<Rightarrow> 0 | Some n \<Rightarrow> n)"

text \<open>One iteration of the loop over a secret's overrides, at index \<open>j\<close>: the state is the set
  \<open>overrideNames\<close> and the issues so far. Both \<open>continue\<close> statements end the iteration.\<close>

definition overrideBody ::
  "(string \<Rightarrow> string) \<Rightarrow> Secret \<Rightarrow> bool \<Rightarrow> nat \<Rightarrow> BranchOverride
     \<Rightarrow> string set \<times> string list \<Rightarrow> string set \<times> string list" where
  "overrideBody q s hasDefault j ov st =
     (let (overrideNames, issues) = st;
          (overrideNames, issues) =
            (if TrimSpace (BranchOverride.Name ov) = []
             then (overrideNames,
                   issues @ [''secret '' @ q (Secret.Name s) @ '' override at index '' @ itoa j
                             @ '' missing name''])
             else (insert (BranchOverride.Name ov) overrideNames,
                   if BranchOverride.Name ov \<in> overrideNames
                   then issues @ [''secret '' @ q (Secret.Name s) @ '' has duplicate override for branch ''
                                  @ q (BranchOverride.Name ov)]
                   else issues));
          enabled = (case VaultEnabled ov of None \<Rightarrow> True | Some b \<Rightarrow> b)
      in if \<not> enabled
         then (overrideNames,
               if targetDefined (BranchOverride.Vault ov)
               then issues @ [''secret '' @ q (Secret.Name s) @ '' override '' @ q (BranchOverride.Name ov)
                              @ '' disables vault but defines a vault target'']
               else issues)
         else if \<not> targetDefined (BranchOverride.Vault ov)
         then (overrideNames,
               issues @ [''secret '' @ q (Secret.Name s) @ '' override '' @ q (BranchOverride.Name ov)
                         @ '' must define a vault target when vault is enabled''])
         else
           let issues =
                 (case validateTarget (BranchOverride.Vault ov)
                         (''secret '' @ q (Secret.Name s) @ '' override '' @ q (BranchOverride.Name ov)) of
                    Some err \<Rightarrow> issues @ [err]
                  | None \<Rightarrow> issues);
               issues =
                 (if hasDefault \<and> targetsEqual (BranchOverride.Vault ov) (TargetWrapper.Vault (Default s))
                  then issues @ [''secret '' @ q (Secret.Name s) @ '' override '' @ q (BranchOverride.Name ov)
                                 @ '' must not match the default vault target'']
                  else issues)
           in (overrideNames, issues))"

fun overridesLoop ::
  "(string \<Rightarrow> string) \<Rightarrow> Secret \<Rightarrow> bool \<Rightarrow> nat \<Rightarrow> BranchOverride list
     \<Rightarrow> string set \<times> string list \<Rightarrow> string set \<times> string list" where
  "overridesLoop q s hasDefault j [] st = st"
| "overridesLoop q s hasDefault j (ov # rest) st =
     overridesLoop q s hasDefault (Suc j) rest (overrideBody q s hasDefault j ov st)"

text \<open>One iteration of the loop over the secrets, at index \<open>i\<close>: the state is the map
  \<open>seenNames\<close> and the issues so far.\<close>

definition secretBody ::
  "(string \<Rightarrow> string) \<Rightarrow> nat \<Rightarrow> Secret \<Rightarrow> (string \<rightharpoonup> nat) \<times> string list
     \<Rightarrow> (string \<rightharpoonup> nat) \<times> string list" where
  "secretBody q i s st =
     (let (seenNames, issues) = st;
          (seenNames, issues) =
            (if TrimSpace (Secret.Name s) = []
             then (seenNames, issues @ [''secret at index '' @ itoa i @ '' is missing a name''])
             else
               let seenNames = seenNames(Secret.Name s \<mapsto> seenCount seenNames (Secret.Name s) + 1)
               in (seenNames,
                   if seenCount seenNames (Secret.Name s) > 1
                   then issues @ [''duplicate secret name '' @ q (Secret.Name s)]
                   else issues));
          hasDefault = targetDefined (TargetWrapper.Vault (Default s));
          issues =
            (if hasDefault
             then (case validateTarget (TargetWrapper.Vault (Default s))
                          (''secret '' @ q (Secret.Name s) @ '' default'') of
                     Some err \<Rightarrow> issues @ [err]
                   | None \<Rightarrow> issues)
             else issues);
          issues =
            (if \<not> hasDefault \<and> length (BranchOverrides s) = 0
             then issues @ [''secret '' @ q (Secret.Name s)
                            @ '' must define a default target or at least one branch override'']
             else issues);
          (overrideNames, issues) = overridesLoop q s hasDefault 0 (BranchOverrides s) ({}, issues)
      in (seenNames, issues))"

fun secretsLoop ::
  "(string \<Rightarrow> string) \<Rightarrow> nat \<Rightarrow> Secret list \<Rightarrow> (string \<rightharpoonup> nat) \<times> string list
     \<Rightarrow> (string \<rightharpoonup> nat) \<times> string list" where
  "secretsLoop q i [] st = st"
| "secretsLoop q i (s # rest) st = secretsLoop q (Suc i) rest (secretBody q i s st)"

text \<open>\<open>Validate\<close> returns an error that is nil or a \<open>*ValidationError\<close>: here \<open>None\<close> is nil.\<close>

definition Validate :: "(string \<Rightarrow> string) \<Rightarrow> File \<Rightarrow> ValidationError option" where
  "Validate q f =
     (if length (VaultSecrets f) = 0
      then Some \<lparr>Issues = [''no vault_secrets entries defined'']\<rparr>
      else
        let (seenNames, issues) = secretsLoop q 0 (VaultSecrets f) (Map.empty, [])
        in if length issues > 0 then Some \<lparr>Issues = issues\<rparr> else None)"

section \<open>\<open>Validate\<close> as a method on the document in memory\<close>

text \<open>
  \<open>Validate\<close> has the pointer receiver \<open>f *File\<close> and works through the pointers
  \<open>s := &f.VaultSecrets[i]\<close> and \<open>o := &s.BranchOverrides[j]\<close> into the document. What lasts
  from one call to the next is the document in memory: the package has no variables, and
  \<open>issues\<close>, \<open>seenNames\<close> and \<open>overrideNames\<close> are made anew inside each call. So the method is
  a computation on the state \<open>File\<close> that returns a result and the state it leaves. Every
  field the source reads through \<open>f\<close>, \<open>s\<close> or \<open>o\<close> is read from the state at the index the
  pointer stands for; the source assigns through none of them, so the computation has no
  write. Each loop ranges over the indices below the length read when it starts. What an
  iteration does with the values it has read is the iteration of the functions above.
\<close>

definition readSecret :: "nat \<Rightarrow> (File, Secret) state" where
  "readSecret i = do { f \<leftarrow> State_Monad.get; State_Monad.return (VaultSecrets f ! i) }"

definition readOverride :: "nat \<Rightarrow> nat \<Rightarrow> (File, BranchOverride) state" where
  "readOverride i j = do { s \<leftarrow> readSecret i; State_Monad.return (BranchOverrides s ! j) }"

definition overrideBody_st ::
  "(string \<Rightarrow> string) \<Rightarrow> nat \<Rightarrow> bool \<Rightarrow> nat \<Rightarrow> string set \<times> string list
     \<Rightarrow> (File, string set \<times> string list) state" where
  "overrideBody_st q i hasDefault j st =
     do {
       s \<leftarrow> readSecret i;
       ov \<leftarrow> readOverride i j;
       State_Monad.return (overrideBody q s hasDefault j ov st)
     }"

fun overridesLoop_st ::
  "(string \<Rightarrow> string) \<Rightarrow> nat \<Rightarrow> bool \<Rightarrow> nat list \<Rightarrow> string set \<times> string list
     \<Rightarrow> (File, string set \<times> string list) state" where
  "overridesLoop_st q i hasDefault [] st = State_Monad.return st"
| "overridesLoop_st q i hasDefault (j # js) st =
     do {
       st' \<leftarrow> overrideBody_st q i hasDefault j st;
       overridesLoop_st q i hasDefault js st'
     }"

definition secretBody_st ::
  "(string \<Rightarrow> string) \<Rightarrow> nat \<Rightarrow> (string \<rightharpoonup> nat) \<times> string list
     \<Rightarrow> (File, (string \<rightharpoonup> nat) \<times> string list) state" where
  "secretBody_st q i st =
     do {
       s \<leftarrow> readSecret i;
       let (seenNames, issues) = st;
       let (seenNames, issues) =
            (if TrimSpace (Secret.Name s) = []
             then (seenNames, issues @ [''secret at index '' @ itoa i @ '' is missing a name''])
             else
               let seenNames = seenNames(Secret.Name s \<mapsto> seenCount seenNames (Secret.Name s) + 1)
               in (seenNames,
                   if seenCount seenNames (Secret.Name s) > 1
                   then issues @ [''duplicate secret name '' @ q (Secret.Name s)]
                   else issues));
       s \<leftarrow> readSecret i;
       let hasDefault = targetDefined (TargetWrapper.Vault (Default s));
       let issues =
            (if hasDefault
             then (case validateTarget (TargetWrapper.Vault (Default s))
                          (''secret '' @ q (Secret.Name s) @ '' default'') of
                     Some err \<Rightarrow> issues @ [err]
                   | None \<Rightarrow> issues)
             else issues);
       s \<leftarrow> readSecret i;
       let issues =
            (if \<not> hasDefault \<and> length (BranchOverrides s) = 0
             then issues @ [''secret '' @ q (Secret.Name s)
                            @ '' must define a default target or at least one branch override'']
             else issues);
       s \<leftarrow> readSecret i;
       (overrideNames, issues) \<leftarrow>
          overridesLoop_st q i hasDefault [0..<length (BranchOverrides s)] ({}, issues);
       State_Monad.return (seenNames, issues)
     }"

fun secretsLoop_st ::
  "(string \<Rightarrow> string) \<Rightarrow> nat list \<Rightarrow> (string \<rightharpoonup> nat) \<times> string list
     \<Rightarrow> (File, (string \<rightharpoonup> nat) \<times> string list) state" where
  "secretsLoop_st q [] st = State_Monad.return st"
| "secretsLoop_st q (i # is) st =
     do {
       st' \<leftarrow> secretBody_st q i st;
       secretsLoop_st q is st'
     }"

definition Validate_st :: "(string \<Rightarrow> string) \<Rightarrow> (File, ValidationError option) state" where
  "Validate_st q =
     do {
       f \<leftarrow> State_Monad.get;
       if length (VaultSecrets f) = 0
       then State_Monad.return (Some \<lparr>Issues = [''no vault_secrets entries defined'']\<rparr>)
       else do {
         f \<leftarrow> State_Monad.get;
         (seenNames, issues) \<leftarrow> secretsLoop_st q [0..<length (VaultSecrets f)] (Map.empty, []);
         State_Monad.return (if length issues > 0 then Some \<lparr>Issues = issues\<rparr> else None)
       }
     }"

section \<open>Errors and loading\<close>

text \<open>
  A Go \<open>error\<close> of this program is a \<open>*ValidationError\<close>, an error that carries a text only
  (\<open>errors.New\<close>, or \<open>fmt.Errorf\<close> without \<open>%w\<close>), or an error made by \<open>fmt.Errorf\<close> with \<open>%w\<close>,
  which wraps another error.
\<close>

datatype error =
    ValidationErr ValidationError
  | errorString string
  | wrapError string error

definition ValidationError_Error :: "ValidationError \<Rightarrow> string" where
  "ValidationError_Error v = ''configuration validation failed: '' @ Join (Issues v) ''; ''"

text \<open>The method \<open>Is\<close> of \<open>*ValidationError\<close>: the type assertion on its argument.\<close>

definition ValidationError_Is :: "ValidationError \<Rightarrow> error \<Rightarrow> bool" where
  "ValidationError_Is v target = (case target of ValidationErr w \<Rightarrow> True | _ \<Rightarrow> False)"

text \<open>
  \<open>errors.Is\<close> of the standard library, for a target that is a pointer allocated for the call
  (as in \<open>errors.Is(err, &ValidationError{})\<close>), so that no error of the chain is identical
  to it: the error's own \<open>Is\<close> method is asked where it has one, then the error it wraps.
\<close>

fun errors_Is :: "error \<Rightarrow> error \<Rightarrow> bool" where
  "errors_Is (ValidationErr v) target = ValidationError_Is v target"
| "errors_Is (errorString s) target = False"
| "errors_Is (wrapError s e) target = errors_Is e target"

definition MustDefaultBranchTarget :: "Secret \<Rightarrow> Target \<times> error option" where
  "MustDefaultBranchTarget s =
     (if \<not> targetDefined (TargetWrapper.Vault (Default s))
      then (zeroTarget, Some (errorString ''default vault target is not defined''))
      else
        case validateTarget (TargetWrapper.Vault (Default s)) ''secret default'' of
          Some err \<Rightarrow> (zeroTarget, Some (errorString err))
        | None \<Rightarrow> (TargetWrapper.Vault (Default s), None))"

text \<open>\<open>Load\<close> after the file has been read and parsed into \<open>cfg0\<close>: it normalises, validates
  and returns the error of \<open>Validate\<close> as it is, or the normalised document.\<close>

definition LoadParsed :: "(string \<Rightarrow> string) \<Rightarrow> File \<Rightarrow> error + File" where
  "LoadParsed q cfg0 =
     (let cfg = File_Normalize cfg0 in
      case Validate q cfg of
        Some err \<Rightarrow> Inl (ValidationErr err)
      | None \<Rightarrow> Inr cfg)"

section \<open>The checks of the validator, as the specification lists them\<close>

text \<open>
  The specification lists the checks the validator performs: on the document (at least one
  secret), on every secret (a name, a name no earlier secret bears, a default target that is
  valid when defined, a default target or an override) and on every override of every secret
  (a name, a name no earlier override of the secret bears, no target when disabled, a target
  when enabled, a valid target, a target other than the default). A \<open>check\<close> is one of them at
  one place of the document: the index of the secret, and of the override. A name that is
  blank is missing, so it is never a duplicate.
\<close>

datatype check =
    SecretNamed nat
  | SecretNameUnique nat
  | DefaultValid nat
  | SecretHasTarget nat
  | OverrideNamed nat nat
  | OverrideNameUnique nat nat
  | DisabledWithoutTarget nat nat
  | EnabledWithTarget nat nat
  | OverrideValid nat nat
  | OverrideNotDefault nat nat

definition targetValid :: "Target \<Rightarrow> bool" where
  "targetValid t = (TrimSpace (AccountID t) \<noteq> [] \<and> TrimSpace (Namespace t) \<noteq> [])"

definition effectiveEnabled :: "bool option \<Rightarrow> bool" where
  "effectiveEnabled x = (case x of None \<Rightarrow> True | Some b \<Rightarrow> b)"

definition secretAt :: "File \<Rightarrow> nat \<Rightarrow> Secret" where
  "secretAt f i = VaultSecrets f ! i"

definition defaultAt :: "File \<Rightarrow> nat \<Rightarrow> Target" where
  "defaultAt f i = TargetWrapper.Vault (Default (secretAt f i))"

definition overrideAt :: "File \<Rightarrow> nat \<Rightarrow> nat \<Rightarrow> BranchOverride" where
  "overrideAt f i j = BranchOverrides (secretAt f i) ! j"

fun violated :: "File \<Rightarrow> check \<Rightarrow> bool" where
  "violated f (SecretNamed i) = (TrimSpace (Secret.Name (secretAt f i)) = [])"
| "violated f (SecretNameUnique i) =
     (TrimSpace (Secret.Name (secretAt f i)) \<noteq> []
      \<and> Secret.Name (secretAt f i) \<in> set (map Secret.Name (take i (VaultSecrets f))))"
| "violated f (DefaultValid i) = (targetDefined (defaultAt f i) \<and> \<not> targetValid (defaultAt f i))"
| "violated f (SecretHasTarget i) =
     (\<not> targetDefined (defaultAt f i) \<and> BranchOverrides (secretAt f i) = [])"
| "violated f (OverrideNamed i j) = (TrimSpace (BranchOverride.Name (overrideAt f i j)) = [])"
| "violated f (OverrideNameUnique i j) =
     (TrimSpace (BranchOverride.Name (overrideAt f i j)) \<noteq> []
      \<and> BranchOverride.Name (overrideAt f i j)
          \<in> set (map BranchOverride.Name (take j (BranchOverrides (secretAt f i)))))"
| "violated f (DisabledWithoutTarget i j) =
     (\<not> effectiveEnabled (VaultEnabled (overrideAt f i j))
      \<and> targetDefined (BranchOverride.Vault (overrideAt f i j)))"
| "violated f (EnabledWithTarget i j) =
     (effectiveEnabled (VaultEnabled (overrideAt f i j))
      \<and> \<not> targetDefined (BranchOverride.Vault (overrideAt f i j)))"
| "violated f (OverrideValid i j) =
     (effectiveEnabled (VaultEnabled (overrideAt f i j))
      \<and> targetDefined (BranchOverride.Vault (overrideAt f i j))
      \<and> \<not> targetValid (BranchOverride.Vault (overrideAt f i j)))"
| "violated f (OverrideNotDefault i j) =
     (effectiveEnabled (VaultEnabled (overrideAt f i j))
      \<and> targetDefined (BranchOverride.Vault (overrideAt f i j))
      \<and> targetDefined (defaultAt f i)
      \<and> targetsEqual (BranchOverride.Vault (overrideAt f i j)) (defaultAt f i))"

definition fieldIssue :: "Target \<Rightarrow> string" where
  "fieldIssue t = (if TrimSpace (AccountID t) = [] then ''account_id is required'' else ''namespace is required'')"

fun issueText :: "(string \<Rightarrow> string) \<Rightarrow> File \<Rightarrow> check \<Rightarrow> string" where
  "issueText q f (SecretNamed i) = ''secret at index '' @ itoa i @ '' is missing a name''"
| "issueText q f (SecretNameUnique i) = ''duplicate secret name '' @ q (Secret.Name (secretAt f i))"
| "issueText q f (DefaultValid i) =
     ''secret '' @ q (Secret.Name (secretAt f i)) @ '' default: '' @ fieldIssue (defaultAt f i)"
| "issueText q f (SecretHasTarget i) =
     ''secret '' @ q (Secret.Name (secretAt f i))
       @ '' must define a default target or at least one branch override''"
| "issueText q f (OverrideNamed i j) =
     ''secret '' @ q (Secret.Name (secretAt f i)) @ '' override at index '' @ itoa j @ '' missing name''"
| "issueText q f (OverrideNameUnique i j) =
     ''secret '' @ q (Secret.Name (secretAt f i)) @ '' has duplicate override for branch ''
       @ q (BranchOverride.Name (overrideAt f i j))"
| "issueText q f (DisabledWithoutTarget i j) =
     ''secret '' @ q (Secret.Name (secretAt f i)) @ '' override '' @ q (BranchOverride.Name (overrideAt f i j))
       @ '' disables vault but defines a vault target''"
| "issueText q f (EnabledWithTarget i j) =
     ''secret '' @ q (Secret.Name (secretAt f i)) @ '' override '' @ q (BranchOverride.Name (overrideAt f i j))
       @ '' must define a vault target when vault is enabled''"
| "issueText q f (OverrideValid i j) =
     ''secret '' @ q (Secret.Name (secretAt f i)) @ '' override '' @ q (BranchOverride.Name (overrideAt f i j))
       @ '': '' @ fieldIssue (BranchOverride.Vault (overrideAt f i j))"
| "issueText q f (OverrideNotDefault i j) =
     ''secret '' @ q (Secret.Name (secretAt f i)) @ '' override '' @ q (BranchOverride.Name (overrideAt f i j))
       @ '' must not match the default vault target''"

text \<open>Every check of the document, in the order of the document.\<close>

definition overrideChecks :: "nat \<Rightarrow> nat \<Rightarrow> check list" where
  "overrideChecks i j =
     [OverrideNamed i j, OverrideNameUnique i j, DisabledWithoutTarget i j, EnabledWithTarget i j,
      OverrideValid i j, OverrideNotDefault i j]"

definition secretChecks :: "File \<Rightarrow> nat \<Rightarrow> check list" where
  "secretChecks f i =
     [SecretNamed i, SecretNameUnique i, DefaultValid i, SecretHasTarget i]
     @ concat (map (overrideChecks i) [0..<length (BranchOverrides (secretAt f i))])"

definition allChecks :: "File \<Rightarrow> check list" where
  "allChecks f = concat (map (secretChecks f) [0..<length (VaultSecrets f)])"

definition violations :: "File \<Rightarrow> check list" where
  "violations f = filter (violated f) (allChecks f)"

text \<open>The issues the violated checks call for: of one override, of one secret, of the
  document.\<close>

definition expectedOverrideIssues :: "(string \<Rightarrow> string) \<Rightarrow> File \<Rightarrow> nat \<Rightarrow> nat \<Rightarrow> string list" where
  "expectedOverrideIssues q f i j = map (issueText q f) (filter (violated f) (overrideChecks i j))"

definition expectedSecretIssues :: "(string \<Rightarrow> string) \<Rightarrow> File \<Rightarrow> nat \<Rightarrow> string list" where
  "expectedSecretIssues q f i = map (issueText q f) (filter (violated f) (secretChecks f i))"

definition expectedIssues :: "(string \<Rightarrow> string) \<Rightarrow> File \<Rightarrow> string list" where
  "expectedIssues q f = map (issueText q f) (violations f)"

text \<open>The invariants of the two loops: \<open>overrideNames\<close> holds the names of the earlier
  overrides that are not blank, and a name has a positive count in \<open>seenNames\<close> exactly when
  an earlier secret bears it and it is not blank.\<close>

definition namesBefore :: "BranchOverride list \<Rightarrow> nat \<Rightarrow> string set" where
  "namesBefore ovs j = {n \<in> set (map BranchOverride.Name (take j ovs)). TrimSpace n \<noteq> []}"

definition seenInv :: "(string \<rightharpoonup> nat) \<Rightarrow> Secret list \<Rightarrow> nat \<Rightarrow> bool" where
  "seenInv seenNames ss i =
     (\<forall>n. (0 < seenCount seenNames n) = (n \<in> set (map Secret.Name (take i ss)) \<and> TrimSpace n \<noteq> []))"

section \<open>Branch resolution, as the specification describes it\<close>

text \<open>The candidates in the order the specification gives them: the trimmed branch, then
  it without the prefix \<open>refs/heads/\<close>, then it without the prefix \<open>origin/\<close>.\<close>

definition specCandidates :: "string \<Rightarrow> string list" where
  "specCandidates branch =
     (let b = TrimSpace branch in
      [b] @ (if HasPrefix b ''refs/heads/'' then [drop (length ''refs/heads/'') b] else [])
          @ (if HasPrefix b ''origin/'' then [drop (length ''origin/'') b] else []))"

text \<open>The match: the first candidate, in list order, that some override is named, and the
  first override, in declared order, of that name.\<close>

definition firstMatch :: "string list \<Rightarrow> BranchOverride list \<Rightarrow> BranchOverride option" where
  "firstMatch candidates overrides =
     (case List.find (\<lambda>c. c \<in> set (map BranchOverride.Name overrides)) candidates of
        None \<Rightarrow> None
      | Some c \<Rightarrow> List.find (\<lambda>ov. BranchOverride.Name ov = c) overrides)"

section \<open>Example documents\<close>

text \<open>How \<open>%q\<close> prints a string of printable ASCII characters without quotes and backslashes:
  between double quotes.\<close>

definition exampleQuote :: "string \<Rightarrow> string" where
  "exampleQuote s = [CHR 0x22] @ s @ [CHR 0x22]"

definition mkTarget :: "string \<Rightarrow> string \<Rightarrow> Target" where
  "mkTarget a n = \<lparr>AccountID = a, Namespace = n, NamespaceAlias = []\<rparr>"

definition mkSecret :: "string \<Rightarrow> Target \<Rightarrow> BranchOverride list \<Rightarrow> Secret" where
  "mkSecret n d ovs = \<lparr>Secret.Name = n, Default = \<lparr>TargetWrapper.Vault = d\<rparr>, BranchOverrides = ovs\<rparr>"

definition mkOverride :: "string \<Rightarrow> Target \<Rightarrow> bool option \<Rightarrow> BranchOverride" where
  "mkOverride n t e = \<lparr>BranchOverride.Name = n, Vault = t, VaultEnabled = e\<rparr>"

definition exampleDisabled :: BranchOverride where
  "exampleDisabled = mkOverride ''dev'' (mkTarget ''A9'' ''N9'') (Some False)"

definition exampleCopy :: BranchOverride where
  "exampleCopy = mkOverride ''qa'' (mkTarget ''A1'' '' N1 '') None"

definition exampleSecret :: Secret where
  "exampleSecret =
     mkSecret ''x'' (mkTarget ''A1'' ''N1'')
       [exampleDisabled, exampleCopy, mkOverride ''qa'' (mkTarget [] []) None]"

definition exampleDocument :: File where
  "exampleDocument = \<lparr>VaultSecrets = [exampleSecret, mkSecret ''x'' (mkTarget [] '' '') []]\<rparr>"

definition acceptedSecret :: Secret where
  "acceptedSecret =
     mkSecret ''x'' (mkTarget ''A1'' ''N1'')
       [mkOverride ''dev'' (mkTarget [] []) (Some False),
        mkOverride ''qa'' (mkTarget ''A2'' ''N2'') None]"

definition acceptedDocument :: File where
  "acceptedDocument = \<lparr>VaultSecrets = [acceptedSecret]\<rparr>"

definition releaseSecret :: Secret where
  "releaseSecret = mkSecret ''x'' (mkTarget ''A1'' ''N1'')
     [mkOverride ''qa'' (mkTarget ''A2'' ''N2'') None, mkOverride ''release'' (mkTarget ''A3'' ''N3'') None]"

definition releaseDocument :: File where
  "releaseDocument = \<lparr>VaultSecrets = [releaseSecret]\<rparr>"

definition whitespaceDefault :: Secret where
  "whitespaceDefault =
     mkSecret ''x'' (mkTarget '' '' []) [mkOverride ''dev'' (mkTarget ''A2'' ''N2'') None]"

section \<open>The loops of \<open>Validate\<close> report every violation\<close>

lemma validateTarget_defined:
  "targetDefined t \<Longrightarrow>
   validateTarget t c = (if targetValid t then None else Some (c @ '': '' @ fieldIssue t))"
  by (auto simp: targetDefined_def targetValid_def validateTarget_def fieldIssue_def)

lemma overrideBody_site:
  assumes "j < length (BranchOverrides (secretAt f i))"
  shows "overrideBody q (secretAt f i) (targetDefined (defaultAt f i)) j (overrideAt f i j)
           (namesBefore (BranchOverrides (secretAt f i)) j, issues)
         = (namesBefore (BranchOverrides (secretAt f i)) (Suc j),
            issues @ map (issueText q f) (filter (violated f) (overrideChecks i j)))"
proof -
  have names: "namesBefore (BranchOverrides (secretAt f i)) (Suc j)
      = (if TrimSpace (BranchOverride.Name (overrideAt f i j)) = []
         then namesBefore (BranchOverrides (secretAt f i)) j
         else insert (BranchOverride.Name (overrideAt f i j)) (namesBefore (BranchOverrides (secretAt f i)) j))"
    using assms by (auto simp: namesBefore_def take_Suc_conv_app_nth overrideAt_def)
  have mem: "TrimSpace (BranchOverride.Name (overrideAt f i j)) \<noteq> [] \<Longrightarrow>
      (BranchOverride.Name (overrideAt f i j) \<in> namesBefore (BranchOverrides (secretAt f i)) j)
      = (BranchOverride.Name (overrideAt f i j)
          \<in> set (map BranchOverride.Name (take j (BranchOverrides (secretAt f i)))))"
    by (auto simp: namesBefore_def)
  show ?thesis
    unfolding names overrideBody_def overrideChecks_def
    by (cases "VaultEnabled (overrideAt f i j)")
       (auto simp: mem validateTarget_defined effectiveEnabled_def defaultAt_def)
qed

lemma overridesLoop_from:
  assumes "j \<le> length (BranchOverrides (secretAt f i))"
  shows "overridesLoop q (secretAt f i) (targetDefined (defaultAt f i)) j
           (drop j (BranchOverrides (secretAt f i)))
           (namesBefore (BranchOverrides (secretAt f i)) j, issues)
         = (namesBefore (BranchOverrides (secretAt f i)) (length (BranchOverrides (secretAt f i))),
            issues @ concat (map (expectedOverrideIssues q f i)
                               [j..<length (BranchOverrides (secretAt f i))]))"
  using assms
proof (induction "length (BranchOverrides (secretAt f i)) - j" arbitrary: j issues)
  case 0
  then show ?case by simp
next
  case (Suc n)
  then have lt: "j < length (BranchOverrides (secretAt f i))" by simp
  have step: "drop j (BranchOverrides (secretAt f i))
      = overrideAt f i j # drop (Suc j) (BranchOverrides (secretAt f i))"
    using lt by (simp add: Cons_nth_drop_Suc overrideAt_def)
  have n: "n = length (BranchOverrides (secretAt f i)) - Suc j" using Suc.hyps(2) by simp
  have le: "Suc j \<le> length (BranchOverrides (secretAt f i))" using lt by simp
  show ?case
    unfolding step overridesLoop.simps overrideBody_site[OF lt] Suc.hyps(1)[OF n le]
    using lt by (simp add: upt_conv_Cons expectedOverrideIssues_def)
qed

lemma overridesLoop_all:
  "snd (overridesLoop q (secretAt f i) (targetDefined (defaultAt f i)) 0
          (BranchOverrides (secretAt f i)) ({}, issues))
   = issues @ concat (map (expectedOverrideIssues q f i) [0..<length (BranchOverrides (secretAt f i))])"
  using overridesLoop_from[of 0 f i q issues] by (simp add: namesBefore_def)

lemma expectedSecretIssues_split:
  "expectedSecretIssues q f i
   = map (issueText q f) (filter (violated f) [SecretNamed i, SecretNameUnique i, DefaultValid i, SecretHasTarget i])
     @ concat (map (expectedOverrideIssues q f i) [0..<length (BranchOverrides (secretAt f i))])"
proof -
  have "(\<lambda>j. map (issueText q f) (filter (violated f) (overrideChecks i j))) = expectedOverrideIssues q f i"
    by (rule ext) (simp only: expectedOverrideIssues_def)
  then show ?thesis
    by (simp only: expectedSecretIssues_def secretChecks_def filter_append map_append
        filter_concat map_concat map_map comp_def)
qed

lemma secretBody_site:
  assumes "i < length (VaultSecrets f)" and "seenInv seenNames (VaultSecrets f) i"
  shows "seenInv (fst (secretBody q i (secretAt f i) (seenNames, issues))) (VaultSecrets f) (Suc i)"
    and "snd (secretBody q i (secretAt f i) (seenNames, issues)) = issues @ expectedSecretIssues q f i"
proof -
  have take: "take (Suc i) (VaultSecrets f) = take i (VaultSecrets f) @ [secretAt f i]"
    using assms(1) by (simp add: take_Suc_conv_app_nth secretAt_def)
  show "seenInv (fst (secretBody q i (secretAt f i) (seenNames, issues))) (VaultSecrets f) (Suc i)"
    using assms(2) unfolding seenInv_def secretBody_def take
    by (auto simp: seenCount_def Let_def split_def)
  have dup: "TrimSpace (Secret.Name (secretAt f i)) \<noteq> [] \<Longrightarrow>
      (0 < seenCount seenNames (Secret.Name (secretAt f i)))
      = (Secret.Name (secretAt f i) \<in> set (map Secret.Name (take i (VaultSecrets f))))"
    using assms(2) unfolding seenInv_def by blast
  have cnt: "seenCount (seenNames(k \<mapsto> v)) k = v" for k v
    by (simp add: seenCount_def)
  show "snd (secretBody q i (secretAt f i) (seenNames, issues)) = issues @ expectedSecretIssues q f i"
    unfolding expectedSecretIssues_split secretBody_def
    using overridesLoop_all[of q f i]
    by (auto simp: Let_def split_def cnt dup validateTarget_defined defaultAt_def[symmetric])
qed

lemma secretsLoop_from:
  assumes "i \<le> length (VaultSecrets f)" and "seenInv seenNames (VaultSecrets f) i"
  shows "snd (secretsLoop q i (drop i (VaultSecrets f)) (seenNames, issues))
         = issues @ concat (map (expectedSecretIssues q f) [i..<length (VaultSecrets f)])"
  using assms
proof (induction "length (VaultSecrets f) - i" arbitrary: i seenNames issues)
  case 0
  then show ?case by simp
next
  case (Suc n)
  then have lt: "i < length (VaultSecrets f)" by simp
  have step: "drop i (VaultSecrets f) = secretAt f i # drop (Suc i) (VaultSecrets f)"
    using lt by (simp add: Cons_nth_drop_Suc secretAt_def)
  have n: "n = length (VaultSecrets f) - Suc i" using Suc.hyps(2) by simp
  have le: "Suc i \<le> length (VaultSecrets f)" using lt by simp
  obtain m2 issues2 where body: "secretBody q i (secretAt f i) (seenNames, issues) = (m2, issues2)"
    by (cases "secretBody q i (secretAt f i) (seenNames, issues)")
  have inv2: "seenInv m2 (VaultSecrets f) (Suc i)"
    using secretBody_site(1)[OF lt Suc.prems(2), of q issues] body by simp
  have issues2: "issues2 = issues @ expectedSecretIssues q f i"
    using secretBody_site(2)[OF lt Suc.prems(2), of q issues] body by simp
  show ?case
    unfolding step secretsLoop.simps body Suc.hyps(1)[OF n le inv2] issues2
    using lt by (simp add: upt_conv_Cons)
qed

lemma expectedIssues_concat:
  "expectedIssues q f = concat (map (expectedSecretIssues q f) [0..<length (VaultSecrets f)])"
proof -
  have "(\<lambda>i. map (issueText q f) (filter (violated f) (secretChecks f i))) = expectedSecretIssues q f"
    by (rule ext) (simp only: expectedSecretIssues_def)
  then show ?thesis
    by (simp only: expectedIssues_def violations_def allChecks_def filter_concat map_concat map_map comp_def)
qed

lemma secretsLoop_all:
  "snd (secretsLoop q 0 (VaultSecrets f) (Map.empty, [])) = expectedIssues q f"
proof -
  have "seenInv Map.empty (VaultSecrets f) 0" by (simp add: seenInv_def seenCount_def)
  from secretsLoop_from[OF _ this, of q "[]"] show ?thesis
    by (simp add: expectedIssues_concat)
qed

lemma Validate_eq:
  "Validate q f =
     (if VaultSecrets f = [] then Some \<lparr>Issues = [''no vault_secrets entries defined'']\<rparr>
      else if expectedIssues q f = [] then None
      else Some \<lparr>Issues = expectedIssues q f\<rparr>)"
  using secretsLoop_all[of q f] by (auto simp: Validate_def split_def)

lemma violation_reported:
  assumes "c \<in> set (violations f)"
  shows "\<exists>v. Validate q f = Some v \<and> issueText q f c \<in> set (Issues v)"
proof -
  from assms have ne: "expectedIssues q f \<noteq> []" and mem: "issueText q f c \<in> set (expectedIssues q f)"
    by (auto simp: expectedIssues_def)
  from assms have "VaultSecrets f \<noteq> []" by (auto simp: violations_def allChecks_def)
  with ne mem show ?thesis by (simp add: Validate_eq)
qed

lemma overrideChecks_in_allChecks:
  assumes "i < length (VaultSecrets f)" and "j < length (BranchOverrides (secretAt f i))"
  shows "set (overrideChecks i j) \<subseteq> set (allChecks f)"
  using assms by (fastforce simp: allChecks_def secretChecks_def)

lemma override_site:
  assumes "s \<in> set (VaultSecrets f)" and "ov \<in> set (BranchOverrides s)"
  shows "\<exists>i j. i < length (VaultSecrets f) \<and> j < length (BranchOverrides (secretAt f i))
            \<and> secretAt f i = s \<and> overrideAt f i j = ov"
proof -
  from assms(1) obtain i where i: "i < length (VaultSecrets f)" "VaultSecrets f ! i = s"
    by (auto simp: in_set_conv_nth)
  from assms(2) obtain j where j: "j < length (BranchOverrides s)" "BranchOverrides s ! j = ov"
    by (auto simp: in_set_conv_nth)
  from i j show ?thesis by (auto simp: secretAt_def overrideAt_def)
qed

lemma targetsEqual_defined: "targetsEqual a b \<Longrightarrow> targetDefined b \<Longrightarrow> targetDefined a"
  by (simp add: targetsEqual_def targetDefined_def)

section \<open>What an accepted document holds\<close>

lemma TrimSpace_Nil: "TrimSpace [] = []"
  by code_simp


lemma accepted_no_violation:
  assumes "Validate q f = None"
  shows "violations f = []"
  using assms by (auto simp: Validate_eq expectedIssues_def split: if_splits)

lemma accepted_override:
  assumes "Validate q f = None" and "s \<in> set (VaultSecrets f)" and "ov \<in> set (BranchOverrides s)"
  shows "TrimSpace (BranchOverride.Name ov) \<noteq> []"
    and "effectiveEnabled (VaultEnabled ov) \<Longrightarrow> targetValid (BranchOverride.Vault ov)"
    and "\<not> effectiveEnabled (VaultEnabled ov) \<Longrightarrow> \<not> targetDefined (BranchOverride.Vault ov)"
proof -
  from override_site[OF assms(2,3)] obtain i j where
    ij: "i < length (VaultSecrets f)" "j < length (BranchOverrides (secretAt f i))"
      "secretAt f i = s" "overrideAt f i j = ov"
    by blast
  have none: "c \<in> set (overrideChecks i j) \<Longrightarrow> \<not> violated f c" for c
  proof
    assume "c \<in> set (overrideChecks i j)" and "violated f c"
    with overrideChecks_in_allChecks[OF ij(1,2)] have "c \<in> set (violations f)"
      by (auto simp: violations_def)
    with accepted_no_violation[OF assms(1)] show False by simp
  qed
  have a: "\<not> violated f (OverrideNamed i j)" "\<not> violated f (DisabledWithoutTarget i j)"
    "\<not> violated f (EnabledWithTarget i j)" "\<not> violated f (OverrideValid i j)"
    by (rule none, simp add: overrideChecks_def)+
  from a(1) ij show "TrimSpace (BranchOverride.Name ov) \<noteq> []" by simp
  from a(3,4) ij show "effectiveEnabled (VaultEnabled ov) \<Longrightarrow> targetValid (BranchOverride.Vault ov)"
    by auto
  from a(2) ij show "\<not> effectiveEnabled (VaultEnabled ov) \<Longrightarrow> \<not> targetDefined (BranchOverride.Vault ov)"
    by auto
qed

section \<open>The loops of \<open>TargetForBranch\<close> find the first match\<close>

lemma scanOverrides_find:
  "scanOverrides c ovs = map_option overrideResult (List.find (\<lambda>ov. BranchOverride.Name ov = c) ovs)"
  by (induction ovs) auto

lemma scanOverrides_None: "(scanOverrides c ovs = None) = (c \<notin> set (map BranchOverride.Name ovs))"
  by (induction ovs) auto

lemma scanCandidates_firstMatch:
  "scanCandidates cs ovs = map_option overrideResult (firstMatch cs ovs)"
proof (induction cs)
  case Nil
  then show ?case by (simp add: firstMatch_def)
next
  case (Cons c cs)
  show ?case
  proof (cases "scanOverrides c ovs")
    case None
    then have "c \<notin> set (map BranchOverride.Name ovs)" by (simp add: scanOverrides_None)
    then have "firstMatch (c # cs) ovs = firstMatch cs ovs" by (simp add: firstMatch_def)
    with None Cons show ?thesis by simp
  next
    case (Some r)
    then have "c \<in> set (map BranchOverride.Name ovs)"
      using scanOverrides_None[of c ovs] by auto
    then have "firstMatch (c # cs) ovs = List.find (\<lambda>ov. BranchOverride.Name ov = c) ovs"
      by (simp add: firstMatch_def)
    with Some show ?thesis by (auto simp: scanOverrides_find)
  qed
qed

lemma overrideResult_False: "overrideResult ov = (t, False) \<Longrightarrow> t = zeroTarget"
  by (auto simp: overrideResult_def Let_def split: if_splits)

lemma branchCandidates_spec:
  "branchCandidates branch = (if TrimSpace branch = [] then [] else specCandidates branch)"
  by (simp add: branchCandidates_def specCandidates_def Let_def TrimPrefix_def)

lemma TargetForBranch_firstMatch:
  "TargetForBranch secret branch =
     (case firstMatch (branchCandidates branch) (BranchOverrides secret) of
        Some ov \<Rightarrow> overrideResult ov
      | None \<Rightarrow>
          if AccountID (TargetWrapper.Vault (Default secret)) = []
             \<and> Namespace (TargetWrapper.Vault (Default secret)) = []
          then (zeroTarget, False)
          else (TargetWrapper.Vault (Default secret), True))"
  by (simp add: TargetForBranch_def scanCandidates_firstMatch split: option.splits)




lemma firstMatch_spec_accepted:
  assumes "Validate q f = None" and "s \<in> set (VaultSecrets f)"
  shows "firstMatch (branchCandidates branch) (BranchOverrides s)
         = firstMatch (specCandidates branch) (BranchOverrides s)"
proof (cases "TrimSpace branch = []")
  case False
  then show ?thesis by (simp add: branchCandidates_spec)
next
  case True
  have "[] \<notin> set (map BranchOverride.Name (BranchOverrides s))"
  proof
    assume "[] \<in> set (map BranchOverride.Name (BranchOverrides s))"
    then obtain ov where ov: "ov \<in> set (BranchOverrides s)" "BranchOverride.Name ov = []" by auto
    from accepted_override(1)[OF assms ov(1)] ov(2) show False by (simp add: TrimSpace_Nil)
  qed
  moreover have "specCandidates branch = [[]]"
    using True by (simp add: specCandidates_def HasPrefix_def)
  moreover have "branchCandidates branch = []"
    using True by (simp add: branchCandidates_spec)
  ultimately show ?thesis by (simp add: firstMatch_def)
qed

section \<open>Normalisation is idempotent\<close>

lemma Target_Normalize_idem: "Target_Normalize (Target_Normalize t) = Target_Normalize t"
  by (simp add: Target_Normalize_def)

lemma File_Normalize_idem: "File_Normalize (File_Normalize f) = File_Normalize f"
  by (simp add: File_Normalize_def Secret_Normalize_def Override_Normalize_def Target_Normalize_idem)

section \<open>The method leaves the document as it is\<close>

lemma run_readSecret: "run_state (readSecret i) D = (VaultSecrets D ! i, D)"
  by (simp add: readSecret_def)

lemma run_readOverride: "run_state (readOverride i j) D = (BranchOverrides (VaultSecrets D ! i) ! j, D)"
  by (simp add: readOverride_def run_readSecret)

lemma run_overrideBody_st:
  "run_state (overrideBody_st q i hasDefault j st) D
   = (overrideBody q (VaultSecrets D ! i) hasDefault j (BranchOverrides (VaultSecrets D ! i) ! j) st, D)"
  by (simp add: overrideBody_st_def run_readSecret run_readOverride)

lemma run_overridesLoop_st:
  assumes "j \<le> length (BranchOverrides (VaultSecrets D ! i))"
  shows "run_state (overridesLoop_st q i hasDefault [j..<length (BranchOverrides (VaultSecrets D ! i))] st) D
         = (overridesLoop q (VaultSecrets D ! i) hasDefault j
              (drop j (BranchOverrides (VaultSecrets D ! i))) st, D)"
  using assms
proof (induction "length (BranchOverrides (VaultSecrets D ! i)) - j" arbitrary: j st)
  case 0
  then show ?case by simp
next
  case (Suc n)
  then have lt: "j < length (BranchOverrides (VaultSecrets D ! i))" by simp
  have n: "n = length (BranchOverrides (VaultSecrets D ! i)) - Suc j" using Suc.hyps(2) by simp
  have le: "Suc j \<le> length (BranchOverrides (VaultSecrets D ! i))" using lt by simp
  have step: "drop j (BranchOverrides (VaultSecrets D ! i))
      = BranchOverrides (VaultSecrets D ! i) ! j # drop (Suc j) (BranchOverrides (VaultSecrets D ! i))"
    using lt by (simp add: Cons_nth_drop_Suc)
  show ?case
    unfolding step upt_conv_Cons[OF lt]
    by (simp add: run_overrideBody_st Suc.hyps(1)[OF n le])
qed

lemma run_secretBody_st:
  "run_state (secretBody_st q i st) D = (secretBody q i (VaultSecrets D ! i) st, D)"
proof (cases st)
  case (Pair seenNames issues)
  show ?thesis
    unfolding Pair secretBody_st_def secretBody_def
    by (simp add: run_readSecret run_overridesLoop_st[of 0, simplified] Let_def split_def
        cong: if_cong option.case_cong)
qed

lemma run_secretsLoop_st:
  assumes "i \<le> length (VaultSecrets D)"
  shows "run_state (secretsLoop_st q [i..<length (VaultSecrets D)] st) D
         = (secretsLoop q i (drop i (VaultSecrets D)) st, D)"
  using assms
proof (induction "length (VaultSecrets D) - i" arbitrary: i st)
  case 0
  then show ?case by simp
next
  case (Suc n)
  then have lt: "i < length (VaultSecrets D)" by simp
  have n: "n = length (VaultSecrets D) - Suc i" using Suc.hyps(2) by simp
  have le: "Suc i \<le> length (VaultSecrets D)" using lt by simp
  have step: "drop i (VaultSecrets D) = VaultSecrets D ! i # drop (Suc i) (VaultSecrets D)"
    using lt by (simp add: Cons_nth_drop_Suc)
  show ?case
    unfolding step upt_conv_Cons[OF lt]
    by (simp add: run_secretBody_st Suc.hyps(1)[OF n le])
qed

lemma run_Validate_st: "run_state (Validate_st q) D = (Validate q D, D)"
  by (simp add: Validate_st_def Validate_def run_secretsLoop_st[of 0, simplified] split_def)

section \<open>The claims\<close>

text \<open>
  Claim C1. For every document, \<open>Validate\<close> returns acceptance or a non-empty ordered list of
  issues that holds one issue for every violation, of every secret and of every override of
  the document, in the order of the document: it never stops at the first violation. The one
  exception is the document without secrets, for which it returns the single issue of the
  document.
\<close>

theorem Validate_reports_every_violation:
  "Validate q f =
     (if VaultSecrets f = [] then Some \<lparr>Issues = [''no vault_secrets entries defined'']\<rparr>
      else if violations f = [] then None
      else Some \<lparr>Issues = map (issueText q f) (violations f)\<rparr>)"
  by (simp add: Validate_eq expectedIssues_def)

theorem Validate_reports_every_violation_witness:
  "Validate exampleQuote exampleDocument =
     Some \<lparr>Issues =
       [''secret \"x\" override \"dev\" disables vault but defines a vault target'',
        ''secret \"x\" override \"qa\" must not match the default vault target'',
        ''secret \"x\" has duplicate override for branch \"qa\"'',
        ''secret \"x\" override \"qa\" must define a vault target when vault is enabled'',
        ''duplicate secret name \"x\"'',
        ''secret \"x\" must define a default target or at least one branch override'']\<rparr>"
proof -
  have a: "VaultSecrets exampleDocument \<noteq> []" by code_simp
  have b: "violations exampleDocument \<noteq> []" by code_simp
  have c: "map (issueText exampleQuote exampleDocument) (violations exampleDocument) =
       [''secret \"x\" override \"dev\" disables vault but defines a vault target'',
        ''secret \"x\" override \"qa\" must not match the default vault target'',
        ''secret \"x\" has duplicate override for branch \"qa\"'',
        ''secret \"x\" override \"qa\" must define a vault target when vault is enabled'',
        ''duplicate secret name \"x\"'',
        ''secret \"x\" must define a default target or at least one branch override'']"
    by code_simp
  show ?thesis using Validate_reports_every_violation[of exampleQuote exampleDocument] a b c by simp
qed



text \<open>
  Claim C3. The candidates are built from the trimmed branch in this order: the branch
  itself, then, if it has the prefix \<open>refs/heads/\<close>, the branch without it, then, if it has
  the prefix \<open>origin/\<close>, the branch without it (a branch that is empty after trimming takes the
  default path and has no candidate). Candidates are tried in list order and overrides in
  declared order: the result comes from the first candidate that some override is named, and
  from the first override of that name. For every secret of a document that \<open>Validate\<close> has
  accepted and for every branch string, empty ones too, the override the code finds is the
  one this list of candidates selects. Branch \<open>refs/heads/release\<close> matches the first
  override named \<open>release\<close> when no override is named \<open>refs/heads/release\<close>.
\<close>

theorem candidates_in_order_first_match:
  "(TrimSpace branch \<noteq> [] \<longrightarrow> branchCandidates branch = specCandidates branch)
   \<and> (TrimSpace branch = [] \<longrightarrow> branchCandidates branch = [])
   \<and> TargetForBranch secret branch =
     (case firstMatch (branchCandidates branch) (BranchOverrides secret) of
        Some ov \<Rightarrow> overrideResult ov
      | None \<Rightarrow>
          if AccountID (TargetWrapper.Vault (Default secret)) = []
             \<and> Namespace (TargetWrapper.Vault (Default secret)) = []
          then (zeroTarget, False)
          else (TargetWrapper.Vault (Default secret), True))
   \<and> (Validate q f = None \<and> secret \<in> set (VaultSecrets f) \<longrightarrow>
        firstMatch (branchCandidates branch) (BranchOverrides secret)
          = firstMatch (specCandidates branch) (BranchOverrides secret)
        \<and> TargetForBranch secret branch =
          (case firstMatch (specCandidates branch) (BranchOverrides secret) of
             Some ov \<Rightarrow> overrideResult ov
           | None \<Rightarrow>
               if AccountID (TargetWrapper.Vault (Default secret)) = []
                  \<and> Namespace (TargetWrapper.Vault (Default secret)) = []
               then (zeroTarget, False)
               else (TargetWrapper.Vault (Default secret), True)))
   \<and> (''release'' \<in> set (map BranchOverride.Name (BranchOverrides secret))
        \<and> ''refs/heads/release'' \<notin> set (map BranchOverride.Name (BranchOverrides secret))
      \<longrightarrow> (\<exists>ov. firstMatch (specCandidates ''refs/heads/release'') (BranchOverrides secret) = Some ov
                \<and> firstMatch (branchCandidates ''refs/heads/release'') (BranchOverrides secret) = Some ov
                \<and> List.find (\<lambda>ov. BranchOverride.Name ov = ''release'') (BranchOverrides secret) = Some ov
                \<and> TargetForBranch secret ''refs/heads/release'' = overrideResult ov))"
proof (intro conjI impI)
  show "TrimSpace branch \<noteq> [] \<Longrightarrow> branchCandidates branch = specCandidates branch"
    by (simp add: branchCandidates_spec)
  show "TrimSpace branch = [] \<Longrightarrow> branchCandidates branch = []"
    by (simp add: branchCandidates_spec)
  show "TargetForBranch secret branch =
     (case firstMatch (branchCandidates branch) (BranchOverrides secret) of
        Some ov \<Rightarrow> overrideResult ov
      | None \<Rightarrow>
          if AccountID (TargetWrapper.Vault (Default secret)) = []
             \<and> Namespace (TargetWrapper.Vault (Default secret)) = []
          then (zeroTarget, False)
          else (TargetWrapper.Vault (Default secret), True))"
    by (rule TargetForBranch_firstMatch)
next
  assume a: "Validate q f = None \<and> secret \<in> set (VaultSecrets f)"
  then show m: "firstMatch (branchCandidates branch) (BranchOverrides secret)
          = firstMatch (specCandidates branch) (BranchOverrides secret)"
    using firstMatch_spec_accepted by blast
  show "TargetForBranch secret branch =
          (case firstMatch (specCandidates branch) (BranchOverrides secret) of
             Some ov \<Rightarrow> overrideResult ov
           | None \<Rightarrow>
               if AccountID (TargetWrapper.Vault (Default secret)) = []
                  \<and> Namespace (TargetWrapper.Vault (Default secret)) = []
               then (zeroTarget, False)
               else (TargetWrapper.Vault (Default secret), True))"
    unfolding m[symmetric] by (rule TargetForBranch_firstMatch)
next
  assume a: "''release'' \<in> set (map BranchOverride.Name (BranchOverrides secret))
        \<and> ''refs/heads/release'' \<notin> set (map BranchOverride.Name (BranchOverrides secret))"
  have c: "branchCandidates ''refs/heads/release'' = [''refs/heads/release'', ''release'']"
    by code_simp
  have d: "specCandidates ''refs/heads/release'' = [''refs/heads/release'', ''release'']"
    by code_simp
  from a obtain ov where ov: "List.find (\<lambda>ov. BranchOverride.Name ov = ''release'') (BranchOverrides secret) = Some ov"
    by (cases "List.find (\<lambda>ov. BranchOverride.Name ov = ''release'') (BranchOverrides secret)")
       (auto simp: find_None_iff)
  from a ov have m: "firstMatch (branchCandidates ''refs/heads/release'') (BranchOverrides secret) = Some ov"
    unfolding c by (simp add: firstMatch_def)
  from a ov have n: "firstMatch (specCandidates ''refs/heads/release'') (BranchOverrides secret) = Some ov"
    unfolding d by (simp add: firstMatch_def)
  from m n ov show "\<exists>ov. firstMatch (specCandidates ''refs/heads/release'') (BranchOverrides secret) = Some ov
                \<and> firstMatch (branchCandidates ''refs/heads/release'') (BranchOverrides secret) = Some ov
                \<and> List.find (\<lambda>ov. BranchOverride.Name ov = ''release'') (BranchOverrides secret) = Some ov
                \<and> TargetForBranch secret ''refs/heads/release'' = overrideResult ov"
    by (simp add: TargetForBranch_firstMatch)
qed

theorem candidates_in_order_first_match_witness:
  "branchCandidates ''refs/heads/release'' = [''refs/heads/release'', ''release'']
   \<and> firstMatch (specCandidates ''refs/heads/release'') (BranchOverrides releaseSecret)
       = Some (mkOverride ''release'' (mkTarget ''A3'' ''N3'') None)
   \<and> TargetForBranch releaseSecret ''refs/heads/release'' = (mkTarget ''A3'' ''N3'', True)"
proof -
  have "violations releaseDocument = []" by code_simp
  moreover have "VaultSecrets releaseDocument \<noteq> []" by code_simp
  ultimately have v: "Validate exampleQuote releaseDocument = None"
    by (simp add: Validate_eq expectedIssues_def)
  have s: "releaseSecret \<in> set (VaultSecrets releaseDocument)"
    by (simp add: releaseDocument_def)
  have t: "TrimSpace ''refs/heads/release'' \<noteq> []" by code_simp
  have a: "''release'' \<in> set (map BranchOverride.Name (BranchOverrides releaseSecret))
        \<and> ''refs/heads/release'' \<notin> set (map BranchOverride.Name (BranchOverrides releaseSecret))"
    by code_simp
  have b: "List.find (\<lambda>ov. BranchOverride.Name ov = ''release'') (BranchOverrides releaseSecret)
     = Some (mkOverride ''release'' (mkTarget ''A3'' ''N3'') None)"
    by code_simp
  have c: "overrideResult (mkOverride ''release'' (mkTarget ''A3'' ''N3'') None) = (mkTarget ''A3'' ''N3'', True)"
    by code_simp
  have d: "specCandidates ''refs/heads/release'' = [''refs/heads/release'', ''release'']"
    by code_simp
  from candidates_in_order_first_match[of "''refs/heads/release''" releaseSecret exampleQuote releaseDocument]
    v s t a b c d
  show ?thesis by auto
qed

text \<open>
  Claim C4. The claim: when the branch is empty after trimming or no override matches,
  \<open>TargetForBranch\<close> returns the zero target and \<open>false\<close> if the default target is not defined
  (after trimming), and the default target and \<open>true\<close> otherwise. The code compares both
  fields of the default target with the empty string without trimming them. The document
  below is accepted by \<open>Validate\<close>, which trims and so takes the default target, whose account
  id is one space, as not defined; \<open>MustDefaultBranchTarget\<close> trims too and refuses this
  default target; \<open>TargetForBranch\<close> returns it with \<open>true\<close> for a branch no override matches.
  The scenario of the claim, a default target \<open>A1\<close>, \<open>N1\<close> without overrides and the empty
  branch, gives \<open>A1\<close>, \<open>N1\<close> and \<open>true\<close>.
\<close>

theorem default_whitespace_target_fetched:
  "TrimSpace '' '' = [] \<and> TrimSpace [] = []
   \<and> TargetWrapper.Vault (Default whitespaceDefault) = mkTarget '' '' []
   \<and> Validate q \<lparr>VaultSecrets = [whitespaceDefault]\<rparr> = None
   \<and> MustDefaultBranchTarget whitespaceDefault
       = (zeroTarget, Some (errorString ''default vault target is not defined''))
   \<and> TargetForBranch whitespaceDefault ''main'' = (mkTarget '' '' [], True)
   \<and> TargetForBranch (mkSecret ''x'' (mkTarget ''A1'' ''N1'') []) [] = (mkTarget ''A1'' ''N1'', True)"
proof -
  have "violations \<lparr>VaultSecrets = [whitespaceDefault]\<rparr> = []" by code_simp
  then have "Validate q \<lparr>VaultSecrets = [whitespaceDefault]\<rparr> = None"
    by (simp add: Validate_eq expectedIssues_def)
  moreover have "TrimSpace '' '' = [] \<and> TrimSpace [] = []
   \<and> TargetWrapper.Vault (Default whitespaceDefault) = mkTarget '' '' []
   \<and> MustDefaultBranchTarget whitespaceDefault
       = (zeroTarget, Some (errorString ''default vault target is not defined''))
   \<and> TargetForBranch whitespaceDefault ''main'' = (mkTarget '' '' [], True)
   \<and> TargetForBranch (mkSecret ''x'' (mkTarget ''A1'' ''N1'') []) [] = (mkTarget ''A1'' ''N1'', True)"
    by code_simp
  ultimately show ?thesis by simp
qed

text \<open>
  Claim C5. For every document that holds an override whose \<open>vault_enabled\<close> is explicitly
  false and whose target is defined, \<open>Validate\<close> fails, and its issues hold the issue that
  names the secret the override belongs to and the override.
\<close>

theorem Validate_disabled_with_target:
  assumes "s \<in> set (VaultSecrets f)" and "ov \<in> set (BranchOverrides s)"
    and "VaultEnabled ov = Some False" and "targetDefined (BranchOverride.Vault ov)"
  shows "\<exists>v. Validate q f = Some v
           \<and> ''secret '' @ q (Secret.Name s) @ '' override '' @ q (BranchOverride.Name ov)
                @ '' disables vault but defines a vault target'' \<in> set (Issues v)"
proof -
  from override_site[OF assms(1,2)] obtain i j where
    ij: "i < length (VaultSecrets f)" "j < length (BranchOverrides (secretAt f i))"
      "secretAt f i = s" "overrideAt f i j = ov"
    by blast
  have "DisabledWithoutTarget i j \<in> set (allChecks f)"
    using overrideChecks_in_allChecks[OF ij(1,2)] by (auto simp: overrideChecks_def)
  moreover have "violated f (DisabledWithoutTarget i j)"
    using assms(3,4) ij by (simp add: effectiveEnabled_def)
  ultimately have "DisabledWithoutTarget i j \<in> set (violations f)"
    by (simp add: violations_def)
  from violation_reported[OF this, of q] show ?thesis using ij by simp
qed

theorem Validate_disabled_with_target_witness:
  "\<exists>v. Validate exampleQuote exampleDocument = Some v
     \<and> ''secret \"x\" override \"dev\" disables vault but defines a vault target'' \<in> set (Issues v)"
proof -
  have a: "exampleSecret \<in> set (VaultSecrets exampleDocument)"
    by (simp add: exampleDocument_def)
  have b: "exampleDisabled \<in> set (BranchOverrides exampleSecret)"
    by (simp add: exampleSecret_def mkSecret_def)
  have c: "VaultEnabled exampleDisabled = Some False"
    by (simp add: exampleDisabled_def mkOverride_def)
  have d: "targetDefined (BranchOverride.Vault exampleDisabled)"
    by code_simp
  show ?thesis
    using Validate_disabled_with_target[OF a b c d, of exampleQuote]
    by (simp add: exampleSecret_def exampleDisabled_def mkSecret_def mkOverride_def exampleQuote_def)
qed

text \<open>
  Claim C6. For every document that holds a secret with a defined default target and an
  enabled override of it whose target equals that default target (the same account id and
  the same namespace, after trimming), \<open>Validate\<close> fails, and its issues hold the issue of
  that override.
\<close>

theorem Validate_override_equals_default:
  assumes "s \<in> set (VaultSecrets f)" and "ov \<in> set (BranchOverrides s)"
    and "targetDefined (TargetWrapper.Vault (Default s))"
    and "VaultEnabled ov \<noteq> Some False"
    and "targetsEqual (BranchOverride.Vault ov) (TargetWrapper.Vault (Default s))"
  shows "\<exists>v. Validate q f = Some v
           \<and> ''secret '' @ q (Secret.Name s) @ '' override '' @ q (BranchOverride.Name ov)
                @ '' must not match the default vault target'' \<in> set (Issues v)"
proof -
  from override_site[OF assms(1,2)] obtain i j where
    ij: "i < length (VaultSecrets f)" "j < length (BranchOverrides (secretAt f i))"
      "secretAt f i = s" "overrideAt f i j = ov"
    by blast
  have en: "effectiveEnabled (VaultEnabled ov)"
    using assms(4) by (cases "VaultEnabled ov") (auto simp: effectiveEnabled_def)
  have "OverrideNotDefault i j \<in> set (allChecks f)"
    using overrideChecks_in_allChecks[OF ij(1,2)] by (auto simp: overrideChecks_def)
  moreover have "violated f (OverrideNotDefault i j)"
    using assms(3,5) en ij targetsEqual_defined[OF assms(5,3)] by (simp add: defaultAt_def)
  ultimately have "OverrideNotDefault i j \<in> set (violations f)"
    by (simp add: violations_def)
  from violation_reported[OF this, of q] show ?thesis using ij by simp
qed

theorem Validate_override_equals_default_witness:
  "\<exists>v. Validate exampleQuote exampleDocument = Some v
     \<and> ''secret \"x\" override \"qa\" must not match the default vault target'' \<in> set (Issues v)"
proof -
  have a: "exampleSecret \<in> set (VaultSecrets exampleDocument)"
    by (simp add: exampleDocument_def)
  have b: "exampleCopy \<in> set (BranchOverrides exampleSecret)"
    by (simp add: exampleSecret_def mkSecret_def)
  have c: "targetDefined (TargetWrapper.Vault (Default exampleSecret))"
    by code_simp
  have d: "VaultEnabled exampleCopy \<noteq> Some False"
    by (simp add: exampleCopy_def mkOverride_def)
  have e: "targetsEqual (BranchOverride.Vault exampleCopy) (TargetWrapper.Vault (Default exampleSecret))"
    by code_simp
  show ?thesis
    using Validate_override_equals_default[OF a b c d e, of exampleQuote]
    by (simp add: exampleSecret_def exampleCopy_def mkSecret_def mkOverride_def exampleQuote_def)
qed

text \<open>
  Claim C7. Every failure of \<open>Validate\<close> is one \<open>ValidationError\<close> that holds the ordered list
  of issues, which is not empty. A caller finds that an error is a validation failure by its
  kind: the method \<open>Is\<close> and \<open>errors.Is\<close> answer true against any \<open>ValidationError\<close>, whatever
  issues either holds, also after the error was wrapped with \<open>%w\<close>, and \<open>errors.Is\<close> answers
  false for an error of another kind that bears the same text. The error \<open>Load\<close> returns for a
  parsed document is such a \<open>ValidationError\<close>.
\<close>

theorem validation_failure_is_typed:
  assumes "Validate q f = Some v"
  shows "Issues v = (if VaultSecrets f = [] then [''no vault_secrets entries defined'']
                     else map (issueText q f) (violations f))
         \<and> Issues v \<noteq> []
         \<and> ValidationError_Is v (ValidationErr w)
         \<and> errors_Is (ValidationErr v) (ValidationErr w)
         \<and> errors_Is (wrapError msg (ValidationErr v)) (ValidationErr w)
         \<and> \<not> errors_Is (errorString (ValidationError_Error v)) (ValidationErr w)
         \<and> \<not> ValidationError_Is v (errorString (ValidationError_Error w))
         \<and> (LoadParsed q cfg = Inl e \<longrightarrow>
              (\<exists>u. e = ValidationErr u \<and> Validate q (File_Normalize cfg) = Some u)
              \<and> errors_Is e (ValidationErr w))"
proof -
  have "LoadParsed q cfg = Inl e \<longrightarrow>
          (\<exists>u. e = ValidationErr u \<and> Validate q (File_Normalize cfg) = Some u)
          \<and> errors_Is e (ValidationErr w)"
    by (auto simp: LoadParsed_def Let_def ValidationError_Is_def split: option.splits)
  moreover have "Issues v = (if VaultSecrets f = [] then [''no vault_secrets entries defined'']
                     else map (issueText q f) (violations f))"
    using assms by (auto simp: Validate_eq expectedIssues_def split: if_splits)
  moreover have "Issues v \<noteq> []"
    using assms by (auto simp: Validate_eq expectedIssues_def split: if_splits)
  ultimately show ?thesis
    by (simp add: ValidationError_Is_def)
qed

theorem validation_failure_is_typed_witness:
  "errors_Is (wrapError ''failed to load config: ''
                (ValidationErr \<lparr>Issues = [''no vault_secrets entries defined'']\<rparr>))
     (ValidationErr \<lparr>Issues = []\<rparr>)
   \<and> LoadParsed exampleQuote \<lparr>VaultSecrets = []\<rparr>
       = Inl (ValidationErr \<lparr>Issues = [''no vault_secrets entries defined'']\<rparr>)"
proof -
  have a: "Validate exampleQuote \<lparr>VaultSecrets = []\<rparr> = Some \<lparr>Issues = [''no vault_secrets entries defined'']\<rparr>"
    by (simp add: Validate_def)
  have b: "LoadParsed exampleQuote \<lparr>VaultSecrets = []\<rparr>
       = Inl (ValidationErr \<lparr>Issues = [''no vault_secrets entries defined'']\<rparr>)"
    by (simp add: LoadParsed_def File_Normalize_def Validate_def)
  from validation_failure_is_typed[OF a, of "\<lparr>Issues = []\<rparr>" "''failed to load config: ''"
      "\<lparr>VaultSecrets = []\<rparr>" "ValidationErr \<lparr>Issues = [''no vault_secrets entries defined'']\<rparr>"] b
  show ?thesis by blast
qed

text \<open>
  Claim C8. Validation is idempotent on accepted documents: when \<open>Validate\<close>, run on the
  document in memory, returns acceptance, it has left the document as it was, running it
  again on the document it left returns acceptance again, and so does running it twice in a
  row.
\<close>

theorem Validate_twice_accepts:
  assumes "run_state (Validate_st q) D = (None, D1)"
  shows "D1 = D
         \<and> run_state (Validate_st q) D1 = (None, D1)
         \<and> run_state (do { r \<leftarrow> Validate_st q; Validate_st q }) D = (None, D)
         \<and> Validate q D = None"
  using assms by (auto simp: run_Validate_st)

theorem Validate_twice_accepts_witness:
  "run_state (Validate_st exampleQuote) acceptedDocument = (None, acceptedDocument)
   \<and> run_state (do { r \<leftarrow> Validate_st exampleQuote; Validate_st exampleQuote }) acceptedDocument
       = (None, acceptedDocument)"
proof -
  have a: "run_state (Validate_st exampleQuote) acceptedDocument = (None, acceptedDocument)"
    by code_simp
  from Validate_twice_accepts[OF a] a show ?thesis by simp
qed

text \<open>
  Claim C9. For every secret and every branch string, when \<open>TargetForBranch\<close> returns
  \<open>false\<close> as its second result, the target it returns is the zero \<open>Target\<close>: the account id,
  the namespace and the alias field are all the empty string.
\<close>

theorem TargetForBranch_no_fetch_zero:
  "TargetForBranch s branch = (t, False) \<Longrightarrow> t = \<lparr>AccountID = [], Namespace = [], NamespaceAlias = []\<rparr>"
proof -
  assume a: "TargetForBranch s branch = (t, False)"
  show ?thesis
  proof (cases "firstMatch (branchCandidates branch) (BranchOverrides s)")
    case None
    with a show ?thesis
      by (auto simp: TargetForBranch_def scanCandidates_firstMatch zeroTarget_def split: if_splits)
  next
    case (Some ov)
    with a have "overrideResult ov = (t, False)"
      by (simp add: TargetForBranch_def scanCandidates_firstMatch)
    then show ?thesis using overrideResult_False by (simp add: zeroTarget_def)
  qed
qed

theorem TargetForBranch_no_fetch_zero_witness:
  "TargetForBranch (mkSecret ''x'' (mkTarget ''A1'' ''N1'') [mkOverride ''dev'' (mkTarget [] []) (Some False)]) ''dev''
     = (\<lparr>AccountID = [], Namespace = [], NamespaceAlias = []\<rparr>, False)"
proof -
  have "snd (TargetForBranch (mkSecret ''x'' (mkTarget ''A1'' ''N1'') [mkOverride ''dev'' (mkTarget [] []) (Some False)]) ''dev'') = False"
    by code_simp
  then have "TargetForBranch (mkSecret ''x'' (mkTarget ''A1'' ''N1'') [mkOverride ''dev'' (mkTarget [] []) (Some False)]) ''dev''
      = (fst (TargetForBranch (mkSecret ''x'' (mkTarget ''A1'' ''N1'') [mkOverride ''dev'' (mkTarget [] []) (Some False)]) ''dev''), False)"
    by (metis prod.collapse)
  from TargetForBranch_no_fetch_zero[OF this] this show ?thesis by simp
qed

text \<open>
  Claim C10. \<open>Target.Normalize\<close> changes the namespace field only: the namespace becomes the
  alias field exactly when the namespace is the empty string (a namespace of white space only
  is kept as it is), the account id and the alias field are unchanged, and normalising twice
  is normalising once. \<open>Secret.Normalize\<close> and \<open>File.Normalize\<close> apply it to the default target
  and to the target of every override, change nothing else of the document, and are
  idempotent too.
\<close>

theorem Normalize_frame:
  "AccountID (Target_Normalize t) = AccountID t
   \<and> NamespaceAlias (Target_Normalize t) = NamespaceAlias t
   \<and> Namespace (Target_Normalize t) = (if Namespace t = [] then NamespaceAlias t else Namespace t)
   \<and> Target_Normalize (Target_Normalize t) = Target_Normalize t
   \<and> Target_Normalize \<lparr>AccountID = a, Namespace = '' '', NamespaceAlias = n\<rparr>
       = \<lparr>AccountID = a, Namespace = '' '', NamespaceAlias = n\<rparr>
   \<and> Secret.Name (Secret_Normalize s) = Secret.Name s
   \<and> TargetWrapper.Vault (Default (Secret_Normalize s))
       = Target_Normalize (TargetWrapper.Vault (Default s))
   \<and> map BranchOverride.Name (BranchOverrides (Secret_Normalize s))
       = map BranchOverride.Name (BranchOverrides s)
   \<and> map VaultEnabled (BranchOverrides (Secret_Normalize s)) = map VaultEnabled (BranchOverrides s)
   \<and> map BranchOverride.Vault (BranchOverrides (Secret_Normalize s))
       = map (\<lambda>ov. Target_Normalize (BranchOverride.Vault ov)) (BranchOverrides s)
   \<and> VaultSecrets (File_Normalize f) = map Secret_Normalize (VaultSecrets f)
   \<and> Secret_Normalize (Secret_Normalize s) = Secret_Normalize s
   \<and> File_Normalize (File_Normalize f) = File_Normalize f"
proof -
  have t: "Target_Normalize (Target_Normalize t) = Target_Normalize t" for t
    by (rule Target_Normalize_idem)
  have s: "Secret_Normalize (Secret_Normalize s) = Secret_Normalize s" for s
    by (simp add: Secret_Normalize_def Override_Normalize_def t)
  show ?thesis
    by (simp add: s t File_Normalize_idem)
       (simp add: Target_Normalize_def File_Normalize_def Secret_Normalize_def Override_Normalize_def)
qed

end
